theory Spec2Isabelle
  imports Complex_Main
begin

section \<open>Segment model (types.ts)\<close>

text \<open>
  Times and percentages are JavaScript numbers. They are modelled as \<^typ>\<open>real\<close>:
  the code only compares, subtracts, divides and floors them, and the values NaN and
  \<open>\<plusminus>Infinity\<close> are written out where a division by zero can produce them. Field names
  carry a prefix because Isabelle records share one name space (and \<open>end\<close> is a keyword).
\<close>

record CutSegment =
  cut_start :: real
  cut_end :: real
  reason :: string

record Chapter =
  timestamp :: real
  title :: string

datatype zoom_target = Center | TopLeft | TopRight | BottomLeft | BottomRight

record SmartZoom =
  zoom_start :: real
  zoom_end :: real
  target :: zoom_target
  description :: string
  zoom_x :: "real option"
  zoom_y :: "real option"

record Subtitle =
  sub_start :: real
  sub_end :: real
  sub_text :: string

record Highlight =
  hl_start :: real
  hl_end :: real
  label :: string

record AnalysisResult =
  cuts :: "CutSegment list"
  chapters :: "Chapter list"
  zooms :: "SmartZoom list"
  subtitles :: "Subtitle list"
  highlights :: "Highlight list"

section \<open>Playback synchronizer (components/VideoPlayer.tsx)\<close>

text \<open>
  The three arrow functions handed to \<open>Array.prototype.find\<close> in \<open>handleTimeUpdate\<close>:
  \<^verbatim>\<open>c => time >= c.start && time < c.end\<close> for cuts and
  \<^verbatim>\<open>s => time >= s.start && time <= s.end\<close> for subtitles and zooms.
\<close>

definition cut_matches :: "real \<Rightarrow> CutSegment \<Rightarrow> bool" where
  "cut_matches time c = (time \<ge> cut_start c \<and> time < cut_end c)"

definition sub_matches :: "real \<Rightarrow> Subtitle \<Rightarrow> bool" where
  "sub_matches time s = (time \<ge> sub_start s \<and> time \<le> sub_end s)"

definition zoom_matches :: "real \<Rightarrow> SmartZoom \<Rightarrow> bool" where
  "zoom_matches time z = (time \<ge> zoom_start z \<and> time \<le> zoom_end z)"

text \<open>
  The CSS value of \<open>transformOrigin\<close>: a percentage pair \<^verbatim>\<open>`${x}% ${y}%`\<close>, or one
  of the keyword pairs that the two versions of the player write.
\<close>

datatype transform_origin =
  Percent real real
  | CenterCenter
  | TopLeftKw
  | TopRightKw
  | BottomLeftKw
  | BottomRightKw

text \<open>
  A \<open>zoomStyle\<close> object: the factor of \<open>scale(...)\<close>, the origin, and the duration in
  seconds of the \<open>transform ... ease-in-out\<close> transition.
\<close>

record zoom_css =
  scale :: real
  transformOrigin :: transform_origin
  transition :: real

text \<open>
  The state that \<open>handleTimeUpdate\<close> reads and writes: \<open>videoRef.current\<close> (absent, or
  the element's \<open>currentTime\<close>), the \<open>currentTime\<close> that \<open>onTimeUpdate\<close> reports to the
  parent and that comes back as a prop, and the four \<open>useState\<close> cells. The initial
  \<open>zoomStyle\<close> is the empty object \<open>{}\<close>, here \<open>None\<close>. The timer that clears the
  notification after one second is real time and is not part of the model.
\<close>

record player =
  video :: "real option"
  currentTime :: real
  currentSubtitle :: "Subtitle option"
  zoomStyle :: "zoom_css option"
  zoomPoint :: "(real \<times> real) option"
  skipNotification :: "string option"

definition initial_player :: "real \<Rightarrow> player" where
  "initial_player t0 =
     \<lparr>video = Some t0, currentTime = 0, currentSubtitle = None, zoomStyle = None,
      zoomPoint = None, skipNotification = None\<rparr>"

definition handleTimeUpdate :: "AnalysisResult option \<Rightarrow> player \<Rightarrow> player" where
  "handleTimeUpdate analysis p =
     (case video p of
        None \<Rightarrow> p
      | Some time \<Rightarrow>
          let p1 = p\<lparr>currentTime := time\<rparr> in
          (case analysis of
             None \<Rightarrow> p1
           | Some a \<Rightarrow>
               (case find (cut_matches time) (cuts a) of
                  Some activeCut \<Rightarrow>
                    p1\<lparr>skipNotification := Some (''Skipping: '' @ reason activeCut),
                       video := Some (cut_end activeCut)\<rparr>
                | None \<Rightarrow>
                    let p2 = p1\<lparr>currentSubtitle := find (sub_matches time) (subtitles a)\<rparr> in
                    (case find (zoom_matches time) (zooms a) of
                       Some activeZoom \<Rightarrow>
                         let x = (case zoom_x activeZoom of Some v \<Rightarrow> v | None \<Rightarrow> 50);
                             y = (case zoom_y activeZoom of Some v \<Rightarrow> v | None \<Rightarrow> 50)
                         in p2\<lparr>zoomPoint := Some (x, y),
                               zoomStyle := Some \<lparr>scale = 5 / 2, transformOrigin = Percent x y,
                                                  transition = 4 / 5\<rparr>\<rparr>
                     | None \<Rightarrow>
                         p2\<lparr>zoomPoint := None,
                            zoomStyle := Some \<lparr>scale = 1, transformOrigin = CenterCenter,
                                               transition = 4 / 5\<rparr>\<rparr>))))"

text \<open>The playback clock moves the element to a new position between two ticks.\<close>

definition seek :: "real \<Rightarrow> player \<Rightarrow> player" where
  "seek t p = p\<lparr>video := Some t\<rparr>"

subsection \<open>Example data\<close>

definition demo_edl :: AnalysisResult where
  "demo_edl =
     \<lparr>cuts = [\<lparr>cut_start = 5, cut_end = 7, reason = ''silence''\<rparr>],
      chapters = [],
      zooms = [\<lparr>zoom_start = 0, zoom_end = 5, target = Center, description = ''face'',
                zoom_x = Some 20, zoom_y = Some 30\<rparr>],
      subtitles = [\<lparr>sub_start = 0, sub_end = 5, sub_text = ''hi''\<rparr>],
      highlights = []\<rparr>"

definition cut_10_12 :: CutSegment where
  "cut_10_12 = \<lparr>cut_start = 10, cut_end = 12, reason = ''pause''\<rparr>"

definition sub_5_7 :: Subtitle where
  "sub_5_7 = \<lparr>sub_start = 5, sub_end = 7, sub_text = ''a b c''\<rparr>"

definition boundary_edl :: AnalysisResult where
  "boundary_edl = \<lparr>cuts = [cut_10_12], chapters = [], zooms = [], subtitles = [sub_5_7],
                    highlights = []\<rparr>"

subsection \<open>The tick when a cut is active\<close>

lemma find_cut_matches:
  "find (cut_matches t) cs = Some c \<Longrightarrow> c \<in> set cs \<and> cut_matches t c"
  by (induction cs) (auto split: if_splits)

lemma find_cut_exists:
  "c \<in> set cs \<Longrightarrow> cut_matches t c \<Longrightarrow> \<exists>c'. find (cut_matches t) cs = Some c'"
  by (induction cs) auto

lemma find_first_match:
  "\<forall>u \<in> set pre. \<not> P u \<Longrightarrow> P s \<Longrightarrow> find P (pre @ s # post) = Some s"
  by (induction pre) auto

lemma handleTimeUpdate_cut:
  assumes "video p = Some t" and "find (cut_matches t) (cuts a) = Some c"
  shows "handleTimeUpdate (Some a) p =
           p\<lparr>currentTime := t, skipNotification := Some (''Skipping: '' @ reason c),
             video := Some (cut_end c)\<rparr>"
  using assms by (simp add: handleTimeUpdate_def)

lemma handleTimeUpdate_no_cut_subtitle:
  assumes "video p = Some t" and "find (cut_matches t) (cuts a) = None"
  shows "currentSubtitle (handleTimeUpdate (Some a) p) = find (sub_matches t) (subtitles a)"
  using assms by (simp add: handleTimeUpdate_def Let_def split: option.splits)

text \<open>
  Claim C1, as the code has it. When some cut matches the time of the tick, the tick
  returns before the subtitle and zoom checks: it writes neither \<open>currentSubtitle\<close> nor
  \<open>zoomStyle\<close> nor \<open>zoomPoint\<close>, which keep the values of the previous tick, its
  result does not depend on the subtitles and zooms of the EDL, and it moves the
  playback position to the end of the first matching cut and posts the skip
  notification.
\<close>

theorem cut_tick_leaves_subtitle_and_zoom:
  assumes "video p = Some t" and "c \<in> set (cuts a)" and "cut_matches t c"
  shows "currentSubtitle (handleTimeUpdate (Some a) p) = currentSubtitle p \<and>
         zoomStyle (handleTimeUpdate (Some a) p) = zoomStyle p \<and>
         zoomPoint (handleTimeUpdate (Some a) p) = zoomPoint p \<and>
         handleTimeUpdate (Some (a\<lparr>subtitles := ss, zooms := zs\<rparr>)) p
           = handleTimeUpdate (Some a) p \<and>
         (\<exists>c'. find (cut_matches t) (cuts a) = Some c' \<and>
               video (handleTimeUpdate (Some a) p) = Some (cut_end c') \<and>
               skipNotification (handleTimeUpdate (Some a) p)
                 = Some (''Skipping: '' @ reason c'))"
proof -
  from assms(2,3) obtain c' where f: "find (cut_matches t) (cuts a) = Some c'"
    using find_cut_exists by blast
  then have g: "find (cut_matches t) (cuts (a\<lparr>subtitles := ss, zooms := zs\<rparr>)) = Some c'"
    by simp
  show ?thesis
    using handleTimeUpdate_cut [OF assms(1) f] handleTimeUpdate_cut [OF assms(1) g] f by simp
qed

theorem cut_tick_leaves_subtitle_and_zoom_witness:
  "video (seek 5 (handleTimeUpdate (Some demo_edl) (initial_player 4))) = Some 5 \<and>
   \<lparr>cut_start = 5, cut_end = 7, reason = ''silence''\<rparr> \<in> set (cuts demo_edl) \<and>
   cut_matches 5 \<lparr>cut_start = 5, cut_end = 7, reason = ''silence''\<rparr> \<and>
   currentSubtitle (handleTimeUpdate (Some demo_edl)
       (seek 5 (handleTimeUpdate (Some demo_edl) (initial_player 4))))
     = currentSubtitle (seek 5 (handleTimeUpdate (Some demo_edl) (initial_player 4))) \<and>
   zoomStyle (handleTimeUpdate (Some demo_edl)
       (seek 5 (handleTimeUpdate (Some demo_edl) (initial_player 4))))
     = zoomStyle (seek 5 (handleTimeUpdate (Some demo_edl) (initial_player 4)))"
  using cut_tick_leaves_subtitle_and_zoom
    [of "seek 5 (handleTimeUpdate (Some demo_edl) (initial_player 4))" 5
        "\<lparr>cut_start = 5, cut_end = 7, reason = ''silence''\<rparr>" demo_edl]
  by (simp add: demo_edl_def seek_def cut_matches_def)

text \<open>
  The claim as written fails: from the initial state, a tick at 4 s shows the subtitle
  and the zoom of \<open>demo_edl\<close>; at the next tick, at 5 s, the cut \<open>[5, 7)\<close> matches, and
  the subtitle is still reported and the zoom is still the 2.5 scale.
\<close>

theorem cut_tick_stale_counterexample:
  "find (cut_matches 5) (cuts demo_edl)
     = Some \<lparr>cut_start = 5, cut_end = 7, reason = ''silence''\<rparr> \<and>
   currentSubtitle (handleTimeUpdate (Some demo_edl)
       (seek 5 (handleTimeUpdate (Some demo_edl) (initial_player 4))))
     = Some \<lparr>sub_start = 0, sub_end = 5, sub_text = ''hi''\<rparr> \<and>
   zoomStyle (handleTimeUpdate (Some demo_edl)
       (seek 5 (handleTimeUpdate (Some demo_edl) (initial_player 4))))
     = Some \<lparr>scale = 5 / 2, transformOrigin = Percent 20 30, transition = 4 / 5\<rparr>"
  by (simp add: demo_edl_def handleTimeUpdate_def seek_def initial_player_def
      cut_matches_def sub_matches_def zoom_matches_def)

subsection \<open>Boundaries of cut and subtitle matching\<close>

text \<open>
  Claim C2. A cut with \<open>start < end\<close> matches at its start and no cut matches at its
  end; the tick jumps to exactly the end of the cut that \<open>find\<close> returns (the first
  matching one). A subtitle with \<open>start \<le> end\<close> matches at its end, and a tick at that
  time reports it when no cut is active and no earlier subtitle of the list matches.
\<close>

theorem cut_end_exclusive_subtitle_end_inclusive:
  "(cut_start c < cut_end c \<longrightarrow> cut_matches (cut_start c) c) \<and>
   \<not> cut_matches (cut_end c) c \<and>
   (video p = Some t \<and> find (cut_matches t) (cuts a) = Some c' \<longrightarrow>
      c' \<in> set (cuts a) \<and> cut_matches t c' \<and>
      video (handleTimeUpdate (Some a) p) = Some (cut_end c')) \<and>
   (sub_start s \<le> sub_end s \<longrightarrow> sub_matches (sub_end s) s) \<and>
   (video q = Some (sub_end s) \<and> sub_start s \<le> sub_end s \<and>
    find (cut_matches (sub_end s)) (cuts b) = None \<and>
    subtitles b = pre @ s # post \<and> (\<forall>u \<in> set pre. \<not> sub_matches (sub_end s) u) \<longrightarrow>
      currentSubtitle (handleTimeUpdate (Some b) q) = Some s)"
proof (intro conjI impI)
  assume "cut_start c < cut_end c"
  then show "cut_matches (cut_start c) c" by (simp add: cut_matches_def)
next
  show "\<not> cut_matches (cut_end c) c" by (simp add: cut_matches_def)
next
  assume h: "video p = Some t \<and> find (cut_matches t) (cuts a) = Some c'"
  then show "c' \<in> set (cuts a)" and "cut_matches t c'"
    using find_cut_matches by blast+
  from h show "video (handleTimeUpdate (Some a) p) = Some (cut_end c')"
    using handleTimeUpdate_cut [of p t a c'] by simp
next
  assume "sub_start s \<le> sub_end s"
  then show "sub_matches (sub_end s) s" by (simp add: sub_matches_def)
next
  assume h: "video q = Some (sub_end s) \<and> sub_start s \<le> sub_end s \<and>
    find (cut_matches (sub_end s)) (cuts b) = None \<and>
    subtitles b = pre @ s # post \<and> (\<forall>u \<in> set pre. \<not> sub_matches (sub_end s) u)"
  then have m: "sub_matches (sub_end s) s" by (simp add: sub_matches_def)
  from h m have "find (sub_matches (sub_end s)) (subtitles b) = Some s"
    using find_first_match [of pre "sub_matches (sub_end s)" s post] by simp
  with h show "currentSubtitle (handleTimeUpdate (Some b) q) = Some s"
    using handleTimeUpdate_no_cut_subtitle [of q "sub_end s" b] by simp
qed

theorem cut_end_exclusive_subtitle_end_inclusive_witness:
  "cut_start cut_10_12 < cut_end cut_10_12 \<and> cut_matches 10 cut_10_12 \<and>
   \<not> cut_matches 12 cut_10_12 \<and>
   video (initial_player (11999 / 1000)) = Some (11999 / 1000) \<and>
   find (cut_matches (11999 / 1000)) (cuts boundary_edl) = Some cut_10_12 \<and>
   video (handleTimeUpdate (Some boundary_edl) (initial_player (11999 / 1000))) = Some 12 \<and>
   sub_start sub_5_7 \<le> sub_end sub_5_7 \<and> sub_matches 7 sub_5_7 \<and>
   find (cut_matches 7) (cuts boundary_edl) = None \<and>
   subtitles boundary_edl = [] @ sub_5_7 # [] \<and>
   currentSubtitle (handleTimeUpdate (Some boundary_edl) (initial_player 7)) = Some sub_5_7"
  using cut_end_exclusive_subtitle_end_inclusive
    [of cut_10_12 "initial_player (11999 / 1000)" "11999 / 1000" boundary_edl cut_10_12
        sub_5_7 "initial_player 7" boundary_edl "[]" "[]"]
  by (simp add: cut_10_12_def sub_5_7_def boundary_edl_def initial_player_def cut_matches_def)

section \<open>Word highlighting (ActiveSubtitleText in components/VideoPlayer.tsx)\<close>

text \<open>
  \<^verbatim>\<open>text.split(' ')\<close>: every single space separates two words, so the result is never
  empty and may hold empty words.
\<close>

fun split_space :: "string \<Rightarrow> string list" where
  "split_space [] = [[]]"
| "split_space (ch # cs) =
     (if ch = CHR '' '' then [] # split_space cs
      else (case split_space cs of w # ws \<Rightarrow> (ch # w) # ws | [] \<Rightarrow> [[ch]]))"

text \<open>
  \<open>activeIndex\<close> is a JavaScript number. With \<open>totalDuration = 0\<close> the quotient is NaN
  when \<open>elapsed = 0\<close> (then \<open>activeIndex\<close> is NaN, here \<open>None\<close>, and equals no
  position) and \<open>+Infinity\<close> otherwise (then \<open>progress = 1\<close>).
\<close>

definition activeIndex :: "string \<Rightarrow> real \<Rightarrow> real \<Rightarrow> real \<Rightarrow> int option" where
  "activeIndex str start end' now =
     (let words = split_space str;
          totalDuration = end' - start;
          elapsed = max 0 (now - start)
      in if totalDuration = 0
         then (if elapsed = 0 then None else Some (int (length words)))
         else Some \<lfloor>min 1 (elapsed / totalDuration) * real (length words)\<rfloor>)"

text \<open>The flag \<^verbatim>\<open>i === activeIndex\<close> of every rendered word.\<close>

definition isActive :: "string \<Rightarrow> real \<Rightarrow> real \<Rightarrow> real \<Rightarrow> bool list" where
  "isActive str start end' now =
     map (\<lambda>i. activeIndex str start end' now = Some (int i)) [0..<length (split_space str)]"


lemma split_space_nonempty: "split_space s \<noteq> []"
  by (induction s) (auto split: list.splits)

lemma activeIndex_mono:
  assumes "start < end'" and "t1 \<le> t2"
  shows "\<exists>i j. activeIndex str start end' t1 = Some i \<and> activeIndex str start end' t2 = Some j \<and> i \<le> j"
proof -
  let ?n = "real (length (split_space str))"
  let ?d = "end' - start"
  have d: "0 < ?d" using assms(1) by simp
  have "max 0 (t1 - start) \<le> max 0 (t2 - start)" using assms(2) by simp
  then have "max 0 (t1 - start) / ?d \<le> max 0 (t2 - start) / ?d"
    using d by (simp add: divide_right_mono)
  then have "min 1 (max 0 (t1 - start) / ?d) \<le> min 1 (max 0 (t2 - start) / ?d)"
    by simp
  then have "min 1 (max 0 (t1 - start) / ?d) * ?n \<le> min 1 (max 0 (t2 - start) / ?d) * ?n"
    by (simp add: mult_right_mono)
  then have "\<lfloor>min 1 (max 0 (t1 - start) / ?d) * ?n\<rfloor> \<le> \<lfloor>min 1 (max 0 (t2 - start) / ?d) * ?n\<rfloor>"
    by (rule floor_mono)
  with d show ?thesis by (simp add: activeIndex_def Let_def)
qed

lemma activeIndex_at_end:
  assumes "start < end'"
  shows "activeIndex str start end' end' = Some (int (length (split_space str)))"
  using assms by (simp add: activeIndex_def Let_def)

lemma activeIndex_before_end:
  assumes "start < end'" and "t < end'"
  shows "\<exists>i. activeIndex str start end' t = Some i \<and> 0 \<le> i \<and> i < int (length (split_space str))"
proof -
  let ?n = "real (length (split_space str))"
  let ?d = "end' - start"
  let ?e = "max 0 (t - start)"
  have d: "0 < ?d" using assms(1) by simp
  have n: "0 < ?n" using split_space_nonempty [of str] by simp
  have "?e < ?d" using assms by simp
  then have lt: "?e / ?d < 1" using d by simp
  have ge: "0 \<le> ?e / ?d" using d by simp
  from lt have "min 1 (?e / ?d) = ?e / ?d" by simp
  moreover have "?e / ?d * ?n < ?n"
    using mult_strict_right_mono [OF lt n] by simp
  moreover have "0 \<le> ?e / ?d * ?n"
    using mult_nonneg_nonneg [OF ge] n by simp
  ultimately have "\<lfloor>min 1 (?e / ?d) * ?n\<rfloor> < int (length (split_space str))"
    and "0 \<le> \<lfloor>min 1 (?e / ?d) * ?n\<rfloor>"
    by (simp_all add: floor_less_iff)
  with d show ?thesis by (simp add: activeIndex_def Let_def)
qed

text \<open>
  Claim C3 at the failing input. For the subtitle \<open>{start: 5, end: 7, text: "a b c"}\<close> at
  \<open>t = 7\<close> the progress is 1 and the index is \<open>floor (1 * 3) = 3\<close>, one past the last
  word (index 2): no word is highlighted. \<open>activeIndex_at_end\<close> shows the same for every
  subtitle with \<open>start < end\<close>; the index is monotonic (\<open>activeIndex_mono\<close>) and stays
  inside the word list before the end (\<open>activeIndex_before_end\<close>).
\<close>

theorem activeIndex_at_end_overshoots:
  "split_space ''a b c'' = [''a'', ''b'', ''c''] \<and>
   activeIndex ''a b c'' 5 7 7 = Some 3 \<and>
   isActive ''a b c'' 5 7 7 = [False, False, False]"
  by (simp add: activeIndex_def isActive_def Let_def upt_rec)

section \<open>Focus point and scale of an active zoom\<close>

definition corner_zoom :: SmartZoom where
  "corner_zoom = \<lparr>zoom_start = 1, zoom_end = 4, target = TopLeft, description = ''logo'',
                   zoom_x = None, zoom_y = None\<rparr>"

definition center_zoom :: SmartZoom where
  "center_zoom = \<lparr>zoom_start = 1, zoom_end = 4, target = Center, description = ''speaker'',
                   zoom_x = None, zoom_y = None\<rparr>"

definition picked_zoom :: SmartZoom where
  "picked_zoom = \<lparr>zoom_start = 1, zoom_end = 4, target = TopLeft, description = ''cursor'',
                   zoom_x = Some 20, zoom_y = Some 30\<rparr>"

definition zoom_edl :: "SmartZoom \<Rightarrow> AnalysisResult" where
  "zoom_edl z = \<lparr>cuts = [], chapters = [], zooms = [z], subtitles = [], highlights = []\<rparr>"

lemma handleTimeUpdate_zoom:
  assumes "video p = Some t" and "find (cut_matches t) (cuts a) = None"
    and "find (zoom_matches t) (zooms a) = Some z"
  shows "zoomStyle (handleTimeUpdate (Some a) p) =
           Some \<lparr>scale = 5 / 2,
                 transformOrigin = Percent (case zoom_x z of Some v \<Rightarrow> v | None \<Rightarrow> 50)
                                           (case zoom_y z of Some v \<Rightarrow> v | None \<Rightarrow> 50),
                 transition = 4 / 5\<rparr>"
    and "zoomPoint (handleTimeUpdate (Some a) p) =
           Some (case zoom_x z of Some v \<Rightarrow> v | None \<Rightarrow> 50,
                 case zoom_y z of Some v \<Rightarrow> v | None \<Rightarrow> 50)"
  using assms by (simp_all add: handleTimeUpdate_def Let_def)

text \<open>
  Claim C4, as the code has it. For the active zoom (no cut active, the first zoom that
  matches) the tick emits the scale 2.5 and the 0.8 s transition whether or not \<open>x\<close>
  and \<open>y\<close> are present; a coordinate that is present is the focus coordinate; with
  target \<open>center\<close> an absent coordinate is 50.
\<close>

theorem active_zoom_scale_and_focus:
  assumes "video p = Some t" and "find (cut_matches t) (cuts a) = None"
    and "find (zoom_matches t) (zooms a) = Some z"
  shows "\<exists>fx fy.
           zoomStyle (handleTimeUpdate (Some a) p)
             = Some \<lparr>scale = 5 / 2, transformOrigin = Percent fx fy, transition = 4 / 5\<rparr> \<and>
           zoomPoint (handleTimeUpdate (Some a) p) = Some (fx, fy) \<and>
           (\<forall>v. zoom_x z = Some v \<longrightarrow> fx = v) \<and>
           (\<forall>v. zoom_y z = Some v \<longrightarrow> fy = v) \<and>
           (target z = Center \<and> zoom_x z = None \<longrightarrow> fx = 50) \<and>
           (target z = Center \<and> zoom_y z = None \<longrightarrow> fy = 50)"
  using handleTimeUpdate_zoom [OF assms] by (auto split: option.splits)

theorem active_zoom_scale_and_focus_witness:
  "video (initial_player 2) = Some 2 \<and>
   find (cut_matches 2) (cuts (zoom_edl picked_zoom)) = None \<and>
   find (zoom_matches 2) (zooms (zoom_edl picked_zoom)) = Some picked_zoom \<and>
   zoomStyle (handleTimeUpdate (Some (zoom_edl picked_zoom)) (initial_player 2))
     = Some \<lparr>scale = 5 / 2, transformOrigin = Percent 20 30, transition = 4 / 5\<rparr> \<and>
   zoomPoint (handleTimeUpdate (Some (zoom_edl picked_zoom)) (initial_player 2)) = Some (20, 30)"
proof -
  have v: "video (initial_player 2) = Some 2"
    by (simp add: initial_player_def)
  have c: "find (cut_matches 2) (cuts (zoom_edl picked_zoom)) = None"
    by (simp add: zoom_edl_def)
  have z: "find (zoom_matches 2) (zooms (zoom_edl picked_zoom)) = Some picked_zoom"
    by (simp add: zoom_edl_def picked_zoom_def zoom_matches_def)
  from active_zoom_scale_and_focus [OF v c z] v c z show ?thesis
    by (auto simp: picked_zoom_def)
qed

text \<open>
  The claim as written fails for a zoom without \<open>x\<close> and \<open>y\<close>: the scale is 2.5, not
  1.5, and for the target \<open>top-left\<close> the origin is \<open>50% 50%\<close>, not \<open>(0, 0)\<close>.
\<close>

theorem target_only_zoom_counterexample:
  "find (zoom_matches 2) (zooms (zoom_edl corner_zoom)) = Some corner_zoom \<and>
   zoom_x corner_zoom = None \<and> zoom_y corner_zoom = None \<and> target corner_zoom = TopLeft \<and>
   zoomStyle (handleTimeUpdate (Some (zoom_edl corner_zoom)) (initial_player 2))
     = Some \<lparr>scale = 5 / 2, transformOrigin = Percent 50 50, transition = 4 / 5\<rparr> \<and>
   find (zoom_matches 2) (zooms (zoom_edl center_zoom)) = Some center_zoom \<and>
   zoom_x center_zoom = None \<and> zoom_y center_zoom = None \<and> target center_zoom = Center \<and>
   zoomStyle (handleTimeUpdate (Some (zoom_edl center_zoom)) (initial_player 2))
     = Some \<lparr>scale = 5 / 2, transformOrigin = Percent 50 50, transition = 4 / 5\<rparr>"
  by (simp add: zoom_edl_def corner_zoom_def center_zoom_def handleTimeUpdate_def
      initial_player_def zoom_matches_def)

section \<open>History manager (App)\<close>

text \<open>
  The \<open>useState\<close> cells of \<open>App\<close> that the history manager reads and writes, and the
  value stored under the key \<open>bina_ai_analysis\<close> of \<open>localStorage\<close> (the object that
  the stored JSON text denotes). The state is polymorphic in the type of a snapshot:
  \<open>pushToHistory\<close>, \<open>undo\<close> and \<open>redo\<close> never look inside one.
\<close>

record 'e app =
  analysis :: "'e option"
  history :: "'e list"
  historyIndex :: int
  saved :: "'e option"

definition initial_app :: "'e option \<Rightarrow> 'e app" where
  "initial_app stored = \<lparr>analysis = None, history = [], historyIndex = - 1, saved = stored\<rparr>"

text \<open>
  \<^verbatim>\<open>xs.slice(0, e)\<close>: a negative \<open>e\<close> counts from the end, and an \<open>e\<close> beyond the
  length takes the whole array. \<^verbatim>\<open>xs[i]\<close> is \<open>undefined\<close> (here \<open>None\<close>) out of range.
\<close>

definition slice0 :: "'a list \<Rightarrow> int \<Rightarrow> 'a list" where
  "slice0 xs e = take (nat (if e < 0 then max (int (length xs) + e) 0 else e)) xs"

definition at_index :: "'a list \<Rightarrow> int \<Rightarrow> 'a option" where
  "at_index xs i = (if 0 \<le> i \<and> i < int (length xs) then Some (xs ! nat i) else None)"

definition pushToHistory :: "'e \<Rightarrow> 'e app \<Rightarrow> 'e app" where
  "pushToHistory newAnalysis st =
     (let newHistory = slice0 (history st) (historyIndex st + 1) @ [newAnalysis]
      in st\<lparr>history := newHistory,
            historyIndex := int (length newHistory) - 1,
            analysis := Some newAnalysis,
            saved := Some newAnalysis\<rparr>)"

definition undo :: "'e app \<Rightarrow> 'e app" where
  "undo st =
     (if historyIndex st > 0
      then let newIndex = historyIndex st - 1
           in st\<lparr>historyIndex := newIndex,
                 analysis := at_index (history st) newIndex,
                 saved := at_index (history st) newIndex\<rparr>
      else st)"

definition redo :: "'e app \<Rightarrow> 'e app" where
  "redo st =
     (if historyIndex st < int (length (history st)) - 1
      then let newIndex = historyIndex st + 1
           in st\<lparr>historyIndex := newIndex,
                 analysis := at_index (history st) newIndex,
                 saved := at_index (history st) newIndex\<rparr>
      else st)"

text \<open>
  What \<open>handleAnalyze\<close> does to this state once the analysis service has answered with
  \<open>result\<close>, and what \<open>handleFileUpload\<close> does to it for an accepted file.
\<close>

definition handleAnalyze_done :: "'e \<Rightarrow> 'e app \<Rightarrow> 'e app" where
  "handleAnalyze_done result st =
     st\<lparr>analysis := Some result, history := [result], historyIndex := 0, saved := Some result\<rparr>"

definition handleFileUpload_reset :: "'e app \<Rightarrow> 'e app" where
  "handleFileUpload_reset st = st\<lparr>analysis := None, history := [], historyIndex := - 1\<rparr>"

text \<open>
  The invariant of the history manager while an EDL is loaded: the cursor is inside the
  list and the current EDL is the entry under the cursor. \<open>handleAnalyze\<close> and the load
  effect establish it, and \<open>pushToHistory\<close>, \<open>undo\<close> and \<open>redo\<close> keep it. Every
  edit handler returns at once when there is no current EDL, so \<open>pushToHistory\<close> only
  runs in states that satisfy it.
\<close>

definition hist_ok :: "'e app \<Rightarrow> bool" where
  "hist_ok st =
     (0 \<le> historyIndex st \<and> historyIndex st < int (length (history st)) \<and>
      analysis st = Some (history st ! nat (historyIndex st)))"

lemma hist_okD:
  assumes "hist_ok st"
  shows "0 \<le> historyIndex st" and "nat (historyIndex st) < length (history st)"
    and "analysis st = Some (history st ! nat (historyIndex st))"
  using assms unfolding hist_ok_def by auto

lemma hist_ok_analyze: "hist_ok (handleAnalyze_done r st)"
  by (simp add: hist_ok_def handleAnalyze_done_def)

lemma slice0_take: "0 \<le> i \<Longrightarrow> slice0 xs (i + 1) = take (nat i + 1) xs"
  by (simp add: slice0_def nat_add_distrib)

lemma pushToHistory_ok:
  assumes "hist_ok st"
  shows "history (pushToHistory e st) = take (nat (historyIndex st) + 1) (history st) @ [e]"
    and "historyIndex (pushToHistory e st) = historyIndex st + 1"
    and "analysis (pushToHistory e st) = Some e"
    and "hist_ok (pushToHistory e st)"
proof -
  note i = hist_okD(1) [OF assms] and l = hist_okD(2) [OF assms]
  from l have len: "length (take (nat (historyIndex st) + 1) (history st)) = nat (historyIndex st) + 1"
    by simp
  show h: "history (pushToHistory e st) = take (nat (historyIndex st) + 1) (history st) @ [e]"
    using i by (simp add: pushToHistory_def Let_def slice0_take)
  show x: "historyIndex (pushToHistory e st) = historyIndex st + 1"
    using i l by (simp add: pushToHistory_def Let_def slice0_take)
  show a: "analysis (pushToHistory e st) = Some e"
    by (simp add: pushToHistory_def Let_def)
  have "history (pushToHistory e st) ! nat (historyIndex st + 1) = e"
    using i len by (simp add: h nat_add_distrib nth_append)
  then show "hist_ok (pushToHistory e st)"
    using i l by (simp add: hist_ok_def x a) (simp add: h)
qed

text \<open>
  Without a current EDL the history is empty and the cursor is -1; no handler records
  in that state. If one did, the recorded EDL would be the only entry and undo would
  change nothing.
\<close>

lemma record_on_empty_history:
  "analysis (undo (pushToHistory e (initial_app stored))) = Some e \<and>
   history (undo (pushToHistory e (initial_app stored))) = [e]"
  by (simp add: pushToHistory_def undo_def initial_app_def slice0_def Let_def)

lemma undo_ok: "hist_ok st \<Longrightarrow> hist_ok (undo st)"
  by (auto simp: hist_ok_def undo_def at_index_def Let_def)

lemma redo_ok: "hist_ok st \<Longrightarrow> hist_ok (redo st)"
  by (auto simp: hist_ok_def redo_def at_index_def Let_def)

text \<open>
  Claim C5. In every state of the history manager with a current EDL, recording
  \<open>newEdl\<close> and undoing makes the current EDL the one that was current before the
  record, and redoing then makes it \<open>newEdl\<close> again (with the history and the cursor
  that the record left).
\<close>

theorem record_undo_redo:
  assumes "hist_ok st"
  shows "analysis (undo (pushToHistory newEdl st)) = analysis st \<and>
         analysis (redo (undo (pushToHistory newEdl st))) = Some newEdl \<and>
         history (redo (undo (pushToHistory newEdl st))) = history (pushToHistory newEdl st) \<and>
         historyIndex (redo (undo (pushToHistory newEdl st))) = historyIndex (pushToHistory newEdl st)"
proof -
  let ?i = "historyIndex st"
  let ?p = "pushToHistory newEdl st"
  note i = hist_okD(1) [OF assms] and l = hist_okD(2) [OF assms] and a = hist_okD(3) [OF assms]
  note p = pushToHistory_ok [OF assms, of newEdl]
  have u: "undo ?p = ?p\<lparr>historyIndex := ?i, analysis := Some (history st ! nat ?i),
                             saved := Some (history st ! nat ?i)\<rparr>"
    using i l by (simp add: undo_def p(1,2) Let_def at_index_def nth_append)
  have r: "redo (undo ?p) = (undo ?p)\<lparr>historyIndex := ?i + 1, analysis := Some newEdl,
                             saved := Some newEdl\<rparr>"
    using i l by (simp add: u redo_def p(1) Let_def at_index_def nth_append nat_add_distrib)
  show ?thesis
    by (simp add: r) (simp add: u a p(2))
qed

text \<open>
  Claim C6. After record(A), undo, record(B) the history is the old history up to the
  old cursor followed by \<open>B\<close> alone (the entry \<open>A\<close> is gone), the cursor is on the last
  entry, the current EDL is \<open>B\<close>, and redo changes nothing.
\<close>

theorem record_undo_record_truncates:
  assumes "hist_ok st"
  shows "history (pushToHistory B (undo (pushToHistory A st)))
           = take (nat (historyIndex st) + 1) (history st) @ [B] \<and>
         historyIndex (pushToHistory B (undo (pushToHistory A st)))
           = int (length (history (pushToHistory B (undo (pushToHistory A st))))) - 1 \<and>
         analysis (pushToHistory B (undo (pushToHistory A st))) = Some B \<and>
         redo (pushToHistory B (undo (pushToHistory A st)))
           = pushToHistory B (undo (pushToHistory A st))"
proof -
  let ?i = "historyIndex st"
  let ?p = "pushToHistory A st"
  note i = hist_okD(1) [OF assms] and l = hist_okD(2) [OF assms]
  note p = pushToHistory_ok [OF assms, of A]
  have uh: "history (undo ?p) = take (nat ?i + 1) (history st) @ [A]"
    by (simp add: undo_def Let_def p(1))
  have ui: "historyIndex (undo ?p) = ?i"
    using i by (simp add: undo_def Let_def p(2))
  have uo: "hist_ok (undo ?p)" by (rule undo_ok [OF p(4)])
  note q = pushToHistory_ok [OF uo, of B]
  have h: "history (pushToHistory B (undo ?p)) = take (nat ?i + 1) (history st) @ [B]"
    using l by (simp add: q(1) uh ui)
  have x: "historyIndex (pushToHistory B (undo ?p)) = ?i + 1"
    by (simp add: q(2) ui)
  have len: "int (length (history (pushToHistory B (undo ?p)))) = ?i + 2"
    using i l by (simp add: h)
  show ?thesis
    using h x q(3) len by (simp add: redo_def)
qed

subsection \<open>Example states\<close>

definition recorded_app :: "AnalysisResult app" where
  "recorded_app = handleAnalyze_done demo_edl (initial_app None)"

definition edl_A :: AnalysisResult where
  "edl_A = demo_edl\<lparr>cuts := []\<rparr>"

definition edl_B :: AnalysisResult where
  "edl_B = demo_edl\<lparr>subtitles := []\<rparr>"

definition edl_C :: AnalysisResult where
  "edl_C = demo_edl\<lparr>zooms := []\<rparr>"

definition edl_D :: AnalysisResult where
  "edl_D = demo_edl\<lparr>chapters := [\<lparr>timestamp = 0, title = ''Intro''\<rparr>]\<rparr>"

text \<open>Two edits and one undo: the history \<open>[demo_edl, edl_A, edl_B]\<close> with the cursor on \<open>edl_A\<close>.\<close>

definition branched_app :: "AnalysisResult app" where
  "branched_app = undo (pushToHistory edl_B (pushToHistory edl_A recorded_app))"

lemma branched_app_eq:
  "branched_app = \<lparr>analysis = Some edl_A, history = [demo_edl, edl_A, edl_B], historyIndex = 1,
                    saved = Some edl_A\<rparr>"
  by (simp add: branched_app_def recorded_app_def handleAnalyze_done_def initial_app_def
      pushToHistory_def undo_def slice0_def at_index_def Let_def)

theorem record_undo_redo_witness:
  "hist_ok branched_app \<and>
   analysis branched_app = Some edl_A \<and>
   analysis (undo (pushToHistory edl_C branched_app)) = Some edl_A \<and>
   analysis (redo (undo (pushToHistory edl_C branched_app))) = Some edl_C"
  using record_undo_redo [of branched_app edl_C]
  by (simp add: branched_app_eq hist_ok_def)

theorem record_undo_record_truncates_witness:
  "hist_ok branched_app \<and>
   history branched_app = [demo_edl, edl_A, edl_B] \<and>
   history (pushToHistory edl_D (undo (pushToHistory edl_C branched_app)))
     = [demo_edl, edl_A, edl_D] \<and>
   historyIndex (pushToHistory edl_D (undo (pushToHistory edl_C branched_app))) = 2 \<and>
   analysis (pushToHistory edl_D (undo (pushToHistory edl_C branched_app))) = Some edl_D \<and>
   redo (pushToHistory edl_D (undo (pushToHistory edl_C branched_app)))
     = pushToHistory edl_D (undo (pushToHistory edl_C branched_app))"
  using record_undo_record_truncates [of branched_app edl_D edl_C]
  by (simp add: branched_app_eq hist_ok_def)

section \<open>Edit handlers (App)\<close>

text \<open>
  \<open>TypeError\<close>: the handler throws (reading a property of \<open>undefined\<close>) and no state
  is written. \<open>Malformed\<close>: the handler records a value that is not an
  \<open>AnalysisResult\<close>: writing a subtitle at an index past the end extends the copied
  array and stores an object with a \<open>text\<close> field only.
\<close>

datatype js_error = TypeError | Malformed

text \<open>\<^verbatim>\<open>xs.filter((_, i) => P(i))\<close>: the elements whose position satisfies \<open>P\<close>.\<close>

definition filter_index :: "(nat \<Rightarrow> bool) \<Rightarrow> 'a list \<Rightarrow> 'a list" where
  "filter_index P xs = map fst (filter (\<lambda>(x, i). P i) (zip xs [0..<length xs]))"

text \<open>
  The handlers take the position that the list rendering passes them. In
  \<open>handlePromoteCutToHighlight\<close> the source's \<open>cut\<close> is named \<open>cutSegment\<close> here
  (\<open>cut\<close> is a constant of HOL); reading \<open>cut.start\<close> throws when the position is
  not one of the array. \<^verbatim>\<open>analysis.highlights || []\<close> is \<open>analysis.highlights\<close>, since
  an array is never falsy. In \<open>handleSubtitleUpdate\<close> the spread copies and the
  assignment to the copy amount to a list update; the store-level model below follows
  them object by object.
\<close>

definition handlePromoteCutToHighlight ::
  "nat \<Rightarrow> AnalysisResult app \<Rightarrow> js_error + AnalysisResult app" where
  "handlePromoteCutToHighlight index st =
     (case analysis st of
        None \<Rightarrow> Inr st
      | Some a \<Rightarrow>
          (case at_index (cuts a) (int index) of
             None \<Rightarrow> Inl TypeError
           | Some cutSegment \<Rightarrow>
               let updatedCuts = filter_index (\<lambda>i. i \<noteq> index) (cuts a);
                   newHighlight = \<lparr>hl_start = cut_start cutSegment, hl_end = cut_end cutSegment,
                                   label = ''Highlighted Segment''\<rparr>;
                   updatedHighlights = highlights a @ [newHighlight];
                   newAnalysis = a\<lparr>cuts := updatedCuts, highlights := updatedHighlights\<rparr>
               in Inr (pushToHistory newAnalysis st)))"

definition handleSubtitleUpdate ::
  "nat \<Rightarrow> string \<Rightarrow> AnalysisResult app \<Rightarrow> js_error + AnalysisResult app" where
  "handleSubtitleUpdate index newText st =
     (case analysis st of
        None \<Rightarrow> Inr st
      | Some a \<Rightarrow>
          if index < length (subtitles a)
          then let updatedSubtitles =
                     (subtitles a)[index := (subtitles a ! index)\<lparr>sub_text := newText\<rparr>];
                   newAnalysis = a\<lparr>subtitles := updatedSubtitles\<rparr>
               in Inr (pushToHistory newAnalysis st)
          else Inl Malformed)"

lemma filter_index_nths: "filter_index P xs = nths xs {i. P i}"
  by (simp add: filter_index_def nths_def case_prod_unfold)

lemma nths_all_but_one: "nths xs {j. j \<noteq> i} = take i xs @ drop (Suc i) xs"
proof (induction xs arbitrary: i)
  case Nil
  then show ?case by simp
next
  case (Cons x xs)
  show ?case
  proof (cases i)
    case 0
    have "nths xs {j. True} = xs" by (rule nths_all) simp
    with 0 show ?thesis by (simp add: nths_Cons)
  next
    case (Suc n)
    then show ?thesis using Cons.IH [of n] by (simp add: nths_Cons)
  qed
qed

lemma filter_index_remove:
  "filter_index (\<lambda>j. j \<noteq> i) xs = take i xs @ drop (Suc i) xs"
  by (simp add: filter_index_nths nths_all_but_one)

lemma handlePromoteCutToHighlight_valid:
  assumes "analysis st = Some a" and "i < length (cuts a)"
  shows "handlePromoteCutToHighlight i st =
           Inr (pushToHistory
                 (a\<lparr>cuts := take i (cuts a) @ drop (Suc i) (cuts a),
                    highlights := highlights a @
                      [\<lparr>hl_start = cut_start (cuts a ! i), hl_end = cut_end (cuts a ! i),
                        label = ''Highlighted Segment''\<rparr>]\<rparr>) st)"
  using assms
  by (simp add: handlePromoteCutToHighlight_def at_index_def Let_def filter_index_remove)

text \<open>
  Claim C7. For a valid cut index \<open>i\<close>, \<open>handlePromoteCutToHighlight\<close> returns, and
  records exactly one new EDL (the history is the old one up to the cursor followed by
  that EDL, which is also the current one). In it the cut at position \<open>i\<close> is removed
  and the other cuts keep their order, one highlight with the start and end of that cut
  and the default label is appended, the number of cuts plus highlights is unchanged,
  and chapters, zooms and subtitles are unchanged.
\<close>

theorem promote_moves_one_segment:
  assumes "analysis st = Some a" and "i < length (cuts a)"
  shows "\<exists>st' a'. handlePromoteCutToHighlight i st = Inr st' \<and>
           analysis st' = Some a' \<and>
           history st' = slice0 (history st) (historyIndex st + 1) @ [a'] \<and>
           cuts a' = take i (cuts a) @ drop (Suc i) (cuts a) \<and>
           highlights a' = highlights a @
             [\<lparr>hl_start = cut_start (cuts a ! i), hl_end = cut_end (cuts a ! i),
               label = ''Highlighted Segment''\<rparr>] \<and>
           length (cuts a') + length (highlights a') = length (cuts a) + length (highlights a) \<and>
           chapters a' = chapters a \<and> zooms a' = zooms a \<and> subtitles a' = subtitles a"
proof -
  let ?a' = "a\<lparr>cuts := take i (cuts a) @ drop (Suc i) (cuts a),
               highlights := highlights a @
                 [\<lparr>hl_start = cut_start (cuts a ! i), hl_end = cut_end (cuts a ! i),
                   label = ''Highlighted Segment''\<rparr>]\<rparr>"
  note r = handlePromoteCutToHighlight_valid [OF assms]
  show ?thesis
    apply (rule exI [of _ "pushToHistory ?a' st"])
    apply (rule exI [of _ ?a'])
    using assms(2) by (simp add: r pushToHistory_def Let_def)
qed

definition two_cuts_edl :: AnalysisResult where
  "two_cuts_edl =
     \<lparr>cuts = [\<lparr>cut_start = 0, cut_end = 2, reason = ''silence''\<rparr>,
              \<lparr>cut_start = 8, cut_end = 9, reason = ''cough''\<rparr>],
      chapters = [\<lparr>timestamp = 0, title = ''Intro''\<rparr>],
      zooms = [],
      subtitles = [\<lparr>sub_start = 2, sub_end = 5, sub_text = ''hello world''\<rparr>,
                   \<lparr>sub_start = 5, sub_end = 8, sub_text = ''second line''\<rparr>],
      highlights = [\<lparr>hl_start = 3, hl_end = 4, label = ''Best bit''\<rparr>]\<rparr>"

definition two_cuts_app :: "AnalysisResult app" where
  "two_cuts_app = handleAnalyze_done two_cuts_edl (initial_app None)"

theorem promote_moves_one_segment_witness:
  "analysis two_cuts_app = Some two_cuts_edl \<and> (1::nat) < length (cuts two_cuts_edl) \<and>
   (\<exists>st' a'. handlePromoteCutToHighlight 1 two_cuts_app = Inr st' \<and>
      analysis st' = Some a' \<and>
      history st' = [two_cuts_edl, a'] \<and>
      cuts a' = [\<lparr>cut_start = 0, cut_end = 2, reason = ''silence''\<rparr>] \<and>
      highlights a' = [\<lparr>hl_start = 3, hl_end = 4, label = ''Best bit''\<rparr>,
                       \<lparr>hl_start = 8, hl_end = 9, label = ''Highlighted Segment''\<rparr>])"
proof -
  have a: "analysis two_cuts_app = Some two_cuts_edl"
    by (simp add: two_cuts_app_def handleAnalyze_done_def)
  have l: "(1::nat) < length (cuts two_cuts_edl)"
    by (simp add: two_cuts_edl_def)
  from promote_moves_one_segment [OF a l] obtain st' a' where
    h: "handlePromoteCutToHighlight 1 two_cuts_app = Inr st'" "analysis st' = Some a'"
      "history st' = slice0 (history two_cuts_app) (historyIndex two_cuts_app + 1) @ [a']"
      "cuts a' = take 1 (cuts two_cuts_edl) @ drop (Suc 1) (cuts two_cuts_edl)"
      "highlights a' = highlights two_cuts_edl @
         [\<lparr>hl_start = cut_start (cuts two_cuts_edl ! 1), hl_end = cut_end (cuts two_cuts_edl ! 1),
           label = ''Highlighted Segment''\<rparr>]"
    by blast
  have "history st' = [two_cuts_edl, a']"
    using h(3) by (simp add: two_cuts_app_def handleAnalyze_done_def initial_app_def slice0_def)
  moreover have "cuts a' = [\<lparr>cut_start = 0, cut_end = 2, reason = ''silence''\<rparr>]"
    using h(4) by (simp add: two_cuts_edl_def)
  moreover have "highlights a' = [\<lparr>hl_start = 3, hl_end = 4, label = ''Best bit''\<rparr>,
                       \<lparr>hl_start = 8, hl_end = 9, label = ''Highlighted Segment''\<rparr>]"
    using h(5) by (simp add: two_cuts_edl_def)
  ultimately show ?thesis using a l h(1,2) by blast
qed

lemma handleSubtitleUpdate_valid:
  assumes "analysis st = Some a" and "i < length (subtitles a)"
  shows "handleSubtitleUpdate i newText st =
           Inr (pushToHistory
                 (a\<lparr>subtitles := (subtitles a)[i := (subtitles a ! i)\<lparr>sub_text := newText\<rparr>]\<rparr>) st)"
  using assms by (simp add: handleSubtitleUpdate_def Let_def)

section \<open>The subtitle edit on the object store\<close>

text \<open>
  Whether the edit mutates its input depends on which objects the handler writes, so
  \<open>handleSubtitleUpdate\<close> is modelled a second time over an explicit store. A store
  is the list of the objects allocated so far, and a reference is a position in it.
  An EDL object holds the references of its five arrays, and an array holds the
  references of its elements. The React state holds references: the history is a list
  of references to EDL objects.
\<close>

type_synonym ref = nat

datatype obj =
  CutObj CutSegment
  | ChapterObj Chapter
  | ZoomObj SmartZoom
  | SubtitleObj Subtitle
  | HighlightObj Highlight
  | ArrayObj "ref list"
  | EdlObj ref ref ref ref ref

type_synonym heap = "obj list"

text \<open>
  Reading an object, allocating a fresh one (object and array literals, spread copies)
  and the assignment to an array element, which overwrites the array object.
\<close>

definition lookup :: "heap \<Rightarrow> ref \<Rightarrow> obj option" where
  "lookup h r = (if r < length h then Some (h ! r) else None)"

definition alloc :: "heap \<Rightarrow> obj \<Rightarrow> heap \<times> ref" where
  "alloc h ob = (h @ [ob], length h)"

definition store :: "heap \<Rightarrow> ref \<Rightarrow> obj \<Rightarrow> heap" where
  "store h r ob = h[r := ob]"

text \<open>The value that a reference denotes in a store: the deep reading of an EDL.\<close>

fun as_cut :: "obj \<Rightarrow> CutSegment option" where
  "as_cut (CutObj c) = Some c" | "as_cut _ = None"

fun as_chapter :: "obj \<Rightarrow> Chapter option" where
  "as_chapter (ChapterObj c) = Some c" | "as_chapter _ = None"

fun as_zoom :: "obj \<Rightarrow> SmartZoom option" where
  "as_zoom (ZoomObj z) = Some z" | "as_zoom _ = None"

fun as_subtitle :: "obj \<Rightarrow> Subtitle option" where
  "as_subtitle (SubtitleObj s) = Some s" | "as_subtitle _ = None"

fun as_highlight :: "obj \<Rightarrow> Highlight option" where
  "as_highlight (HighlightObj x) = Some x" | "as_highlight _ = None"

definition read_elem :: "heap \<Rightarrow> (obj \<Rightarrow> 'a option) \<Rightarrow> ref \<Rightarrow> 'a option" where
  "read_elem h proj r = (case lookup h r of Some ob \<Rightarrow> proj ob | None \<Rightarrow> None)"

definition read_array :: "heap \<Rightarrow> (obj \<Rightarrow> 'a option) \<Rightarrow> ref \<Rightarrow> 'a list option" where
  "read_array h proj r =
     (case lookup h r of
        Some (ArrayObj rs) \<Rightarrow> those (map (read_elem h proj) rs)
      | _ \<Rightarrow> None)"

definition read_edl :: "heap \<Rightarrow> ref \<Rightarrow> AnalysisResult option" where
  "read_edl h r =
     (case lookup h r of
        Some (EdlObj c ch z s hl) \<Rightarrow>
          (case (read_array h as_cut c, read_array h as_chapter ch, read_array h as_zoom z,
                 read_array h as_subtitle s, read_array h as_highlight hl) of
             (Some cs, Some chs, Some zs, Some ss, Some hls) \<Rightarrow>
               Some \<lparr>cuts = cs, chapters = chs, zooms = zs, subtitles = ss, highlights = hls\<rparr>
           | _ \<Rightarrow> None)
      | _ \<Rightarrow> None)"

text \<open>
  The statements of \<open>handleSubtitleUpdate\<close> in order:
  \<^verbatim>\<open>[...analysis.subtitles]\<close> allocates a copy of the array of references;
  \<^verbatim>\<open>{ ...updatedSubtitles[index], text: newText }\<close> allocates a copy of the subtitle
  object with the new text; the assignment to \<^verbatim>\<open>updatedSubtitles[index]\<close> writes the
  copied array; \<^verbatim>\<open>{ ...analysis, subtitles: updatedSubtitles }\<close> allocates a new EDL
  object that shares the other four arrays; \<open>pushToHistory\<close> records its reference.
\<close>

definition handleSubtitleUpdate_heap ::
  "nat \<Rightarrow> string \<Rightarrow> heap \<times> ref app \<Rightarrow> js_error + heap \<times> ref app" where
  "handleSubtitleUpdate_heap index newText hs =
     (case hs of (h, st) \<Rightarrow>
       (case analysis st of
          None \<Rightarrow> Inr (h, st)
        | Some a \<Rightarrow>
            (case lookup h a of
               Some (EdlObj c ch z s hl) \<Rightarrow>
                 (case lookup h s of
                    Some (ArrayObj subs) \<Rightarrow>
                      let (h1, updatedSubtitles) = alloc h (ArrayObj subs) in
                      if index < length subs
                      then (case lookup h1 (subs ! index) of
                              Some (SubtitleObj old) \<Rightarrow>
                                let (h2, newSubtitle) =
                                      alloc h1 (SubtitleObj (old\<lparr>sub_text := newText\<rparr>));
                                    h3 = store h2 updatedSubtitles
                                           (ArrayObj (subs[index := newSubtitle]));
                                    (h4, newAnalysis) =
                                      alloc h3 (EdlObj c ch z updatedSubtitles hl)
                                in Inr (h4, pushToHistory newAnalysis st)
                            | _ \<Rightarrow> Inl Malformed)
                      else Inl Malformed
                  | _ \<Rightarrow> Inl TypeError)
             | _ \<Rightarrow> Inl TypeError)))"

lemma lookup_append: "lookup h r = Some ob \<Longrightarrow> lookup (h @ ext) r = Some ob"
  by (auto simp: lookup_def nth_append split: if_splits)

lemma read_elem_append:
  "read_elem h proj r = Some x \<Longrightarrow> read_elem (h @ ext) proj r = Some x"
  by (auto simp: read_elem_def lookup_append split: option.splits)

lemma those_map_mono:
  assumes "those (map f rs) = Some xs" and "\<And>r x. r \<in> set rs \<Longrightarrow> f r = Some x \<Longrightarrow> g r = Some x"
  shows "those (map g rs) = Some xs"
  using assms
proof (induction rs arbitrary: xs)
  case Nil
  then show ?case by simp
next
  case (Cons r rs)
  from Cons.prems(1) obtain y ys where y: "f r = Some y" and ys: "those (map f rs) = Some ys"
    and xs: "xs = y # ys"
    by (auto split: option.splits)
  have "g r = Some y" using Cons.prems(2) y by simp
  moreover have "those (map g rs) = Some ys" using Cons.IH [OF ys] Cons.prems(2) by simp
  ultimately show ?case using xs by simp
qed

lemma read_array_append:
  assumes "read_array h proj r = Some xs"
  shows "read_array (h @ ext) proj r = Some xs"
proof -
  from assms obtain rs where l: "lookup h r = Some (ArrayObj rs)"
    and t: "those (map (read_elem h proj) rs) = Some xs"
    by (auto simp: read_array_def split: option.splits obj.splits)
  have "those (map (read_elem (h @ ext) proj) rs) = Some xs"
    using t by (rule those_map_mono) (rule read_elem_append)
  then show ?thesis
    using lookup_append [OF l] by (simp add: read_array_def)
qed

lemma read_edl_append:
  assumes "read_edl h r = Some e"
  shows "read_edl (h @ ext) r = Some e"
proof -
  from assms obtain c ch z s hl where l: "lookup h r = Some (EdlObj c ch z s hl)"
    by (auto simp: read_edl_def split: option.splits obj.splits)
  from assms l obtain cs chs zs ss hls where
    r: "read_array h as_cut c = Some cs" "read_array h as_chapter ch = Some chs"
       "read_array h as_zoom z = Some zs" "read_array h as_subtitle s = Some ss"
       "read_array h as_highlight hl = Some hls"
    and e: "e = \<lparr>cuts = cs, chapters = chs, zooms = zs, subtitles = ss, highlights = hls\<rparr>"
    by (auto simp: read_edl_def split: option.splits)
  show ?thesis
    using lookup_append [OF l] r [THEN read_array_append] e
    by (simp add: read_edl_def)
qed

lemma those_eq_Some: "those ys = Some xs \<longleftrightarrow> ys = map Some xs"
proof (induction ys arbitrary: xs)
  case Nil
  then show ?case by auto
next
  case (Cons y ys)
  then show ?case by (cases y; cases xs) auto
qed

lemma read_array_Some:
  "read_array h proj r = Some xs \<longleftrightarrow>
     (\<exists>rs. lookup h r = Some (ArrayObj rs) \<and> map (read_elem h proj) rs = map Some xs)"
  by (auto simp: read_array_def those_eq_Some split: option.splits obj.splits)

lemma read_edl_Some:
  "read_edl h r = Some e \<longleftrightarrow>
     (\<exists>c ch z s hl. lookup h r = Some (EdlObj c ch z s hl) \<and>
        read_array h as_cut c = Some (cuts e) \<and>
        read_array h as_chapter ch = Some (chapters e) \<and>
        read_array h as_zoom z = Some (zooms e) \<and>
        read_array h as_subtitle s = Some (subtitles e) \<and>
        read_array h as_highlight hl = Some (highlights e))"
  by (cases e) (auto simp: read_edl_def split: option.splits obj.splits)

lemma read_elem_subtitle:
  "read_elem h as_subtitle r = Some x \<longleftrightarrow> lookup h r = Some (SubtitleObj x)"
proof (cases "lookup h r")
  case None
  then show ?thesis by (simp add: read_elem_def)
next
  case (Some ob)
  then show ?thesis by (cases ob) (simp_all add: read_elem_def)
qed

lemma handleSubtitleUpdate_heap_valid:
  assumes a: "analysis st = Some a"
    and e: "lookup h a = Some (EdlObj c ch z s hl)"
    and subs: "lookup h s = Some (ArrayObj subs)"
    and i: "i < length subs"
    and old: "lookup h (subs ! i) = Some (SubtitleObj old)"
  shows "handleSubtitleUpdate_heap i newText (h, st) =
           Inr (h @ [ArrayObj (subs[i := Suc (length h)]),
                     SubtitleObj (old\<lparr>sub_text := newText\<rparr>),
                     EdlObj c ch z (length h) hl],
                pushToHistory (Suc (Suc (length h))) st)"
  using assms lookup_append [OF old, of "[ArrayObj subs]"]
  by (simp add: handleSubtitleUpdate_heap_def alloc_def store_def Let_def nth_append)

lemma subtitle_update_heap_new_value:
  assumes "analysis st = Some a" and "read_edl h a = Some e" and "i < length (subtitles e)"
  shows "\<exists>h' st' a'.
           handleSubtitleUpdate_heap i newText (h, st) = Inr (h', st') \<and>
           analysis st' = Some a' \<and>
           history st' = slice0 (history st) (historyIndex st + 1) @ [a'] \<and>
           read_edl h' a' =
             Some (e\<lparr>subtitles := (subtitles e)[i := (subtitles e ! i)\<lparr>sub_text := newText\<rparr>]\<rparr>) \<and>
           take (length h) h' = h \<and>
           read_edl h' a = Some e"
proof -
  from assms(2) obtain c ch z s hl where
    l: "lookup h a = Some (EdlObj c ch z s hl)"
    and rc: "read_array h as_cut c = Some (cuts e)"
    and rch: "read_array h as_chapter ch = Some (chapters e)"
    and rz: "read_array h as_zoom z = Some (zooms e)"
    and rs: "read_array h as_subtitle s = Some (subtitles e)"
    and rh: "read_array h as_highlight hl = Some (highlights e)"
    unfolding read_edl_Some by blast
  from rs obtain subs where
    ls: "lookup h s = Some (ArrayObj subs)"
    and m: "map (read_elem h as_subtitle) subs = map Some (subtitles e)"
    unfolding read_array_Some by blast
  from m have len: "length subs = length (subtitles e)"
    by (rule map_eq_imp_length_eq)
  with assms(3) have i: "i < length subs" by simp
  from m i have "read_elem h as_subtitle (subs ! i) = Some (subtitles e ! i)"
    using len by (metis nth_map)
  then have old: "lookup h (subs ! i) = Some (SubtitleObj (subtitles e ! i))"
    by (simp add: read_elem_subtitle)
  let ?new = "(subtitles e ! i)\<lparr>sub_text := newText\<rparr>"
  let ?ext = "[ArrayObj (subs[i := Suc (length h)]), SubtitleObj ?new,
               EdlObj c ch z (length h) hl]"
  let ?h' = "h @ ?ext"
  let ?a' = "Suc (Suc (length h))"
  note run = handleSubtitleUpdate_heap_valid [OF assms(1) l ls i old, of newText]
  have la': "lookup ?h' ?a' = Some (EdlObj c ch z (length h) hl)"
    by (simp add: lookup_def nth_append)
  have lu: "lookup ?h' (length h) = Some (ArrayObj (subs[i := Suc (length h)]))"
    by (simp add: lookup_def nth_append)
  have ln: "read_elem ?h' as_subtitle (Suc (length h)) = Some ?new"
    by (simp add: read_elem_def lookup_def nth_append)
  have keep: "map (read_elem ?h' as_subtitle) subs = map Some (subtitles e)"
  proof (rule nth_equalityI)
    show "length (map (read_elem ?h' as_subtitle) subs) = length (map Some (subtitles e))"
      using len by simp
  next
    fix j assume "j < length (map (read_elem ?h' as_subtitle) subs)"
    then have j: "j < length subs" by simp
    with m have "read_elem h as_subtitle (subs ! j) = Some (subtitles e ! j)"
      using len by (metis nth_map)
    then have "read_elem ?h' as_subtitle (subs ! j) = Some (subtitles e ! j)"
      by (rule read_elem_append)
    with j len show "map (read_elem ?h' as_subtitle) subs ! j = map Some (subtitles e) ! j"
      by simp
  qed
  have "map (read_elem ?h' as_subtitle) (subs[i := Suc (length h)])
          = (map (read_elem ?h' as_subtitle) subs)[i := read_elem ?h' as_subtitle (Suc (length h))]"
    by (rule map_update)
  also have "\<dots> = (map Some (subtitles e))[i := Some ?new]"
    by (simp only: keep ln)
  also have "\<dots> = map Some ((subtitles e)[i := ?new])"
    by (simp add: map_update)
  finally have "read_array ?h' as_subtitle (length h) = Some ((subtitles e)[i := ?new])"
    unfolding read_array_Some using lu by blast
  with la' rc [THEN read_array_append, of ?ext] rch [THEN read_array_append, of ?ext]
    rz [THEN read_array_append, of ?ext] rh [THEN read_array_append, of ?ext]
  have new: "read_edl ?h' ?a' = Some (e\<lparr>subtitles := (subtitles e)[i := ?new]\<rparr>)"
    unfolding read_edl_Some by simp
  have old_edl: "read_edl ?h' a = Some e"
    using assms(2) by (rule read_edl_append)
  show ?thesis
    apply (rule exI [of _ ?h'])
    apply (rule exI [of _ "pushToHistory ?a' st"])
    apply (rule exI [of _ ?a'])
    using run new old_edl by (simp add: pushToHistory_def Let_def)
qed

text \<open>
  Claim C10. For a current EDL \<open>e\<close> (the value of the reference \<open>a\<close> in the store
  \<open>h\<close>) and a valid subtitle index \<open>i\<close>, the edit returns and records one reference
  to a new EDL \<open>e'\<close>: subtitle \<open>i\<close> of \<open>e'\<close> has the new text and its old start and
  end, every other subtitle and the cuts, chapters, zooms and highlights are those of
  \<open>e\<close>; every object that existed before the edit is unchanged in the new store, and
  the input reference still denotes \<open>e\<close>.
\<close>

theorem subtitle_update_heap_frame:
  assumes "analysis st = Some a" and "read_edl h a = Some e" and "i < length (subtitles e)"
  shows "\<exists>h' st' a' e'.
           handleSubtitleUpdate_heap i newText (h, st) = Inr (h', st') \<and>
           analysis st' = Some a' \<and>
           history st' = slice0 (history st) (historyIndex st + 1) @ [a'] \<and>
           read_edl h' a' = Some e' \<and>
           length (subtitles e') = length (subtitles e) \<and>
           sub_text (subtitles e' ! i) = newText \<and>
           sub_start (subtitles e' ! i) = sub_start (subtitles e ! i) \<and>
           sub_end (subtitles e' ! i) = sub_end (subtitles e ! i) \<and>
           (\<forall>j < length (subtitles e). j \<noteq> i \<longrightarrow> subtitles e' ! j = subtitles e ! j) \<and>
           cuts e' = cuts e \<and> chapters e' = chapters e \<and> zooms e' = zooms e \<and>
           highlights e' = highlights e \<and>
           take (length h) h' = h \<and>
           read_edl h' a = Some e"
proof -
  from subtitle_update_heap_new_value [OF assms, of newText] obtain h' st' a' where
    r: "handleSubtitleUpdate_heap i newText (h, st) = Inr (h', st')" "analysis st' = Some a'"
      "history st' = slice0 (history st) (historyIndex st + 1) @ [a']"
      "read_edl h' a' =
         Some (e\<lparr>subtitles := (subtitles e)[i := (subtitles e ! i)\<lparr>sub_text := newText\<rparr>]\<rparr>)"
      "take (length h) h' = h" "read_edl h' a = Some e"
    by blast
  show ?thesis
    apply (rule exI [of _ h'])
    apply (rule exI [of _ st'])
    apply (rule exI [of _ a'])
    apply (rule exI [of _ "e\<lparr>subtitles := (subtitles e)[i := (subtitles e ! i)\<lparr>sub_text := newText\<rparr>]\<rparr>"])
    using r assms(3) by simp
qed

text \<open>The handler on the store computes the value that the handler on values computes.\<close>

lemma heap_handler_refines_value_handler:
  assumes "analysis st = Some a" and "read_edl h a = Some e" and "i < length (subtitles e)"
    and "analysis sv = Some e"
  shows "\<exists>h' st' a' sv'.
           handleSubtitleUpdate_heap i newText (h, st) = Inr (h', st') \<and>
           handleSubtitleUpdate i newText sv = Inr sv' \<and>
           analysis st' = Some a' \<and> read_edl h' a' = analysis sv'"
proof -
  from subtitle_update_heap_new_value [OF assms(1-3), of newText] obtain h' st' a' where
    "handleSubtitleUpdate_heap i newText (h, st) = Inr (h', st')" "analysis st' = Some a'"
    "read_edl h' a' =
       Some (e\<lparr>subtitles := (subtitles e)[i := (subtitles e ! i)\<lparr>sub_text := newText\<rparr>]\<rparr>)"
    by blast
  moreover have "analysis (pushToHistory
        (e\<lparr>subtitles := (subtitles e)[i := (subtitles e ! i)\<lparr>sub_text := newText\<rparr>]\<rparr>) sv)
      = Some (e\<lparr>subtitles := (subtitles e)[i := (subtitles e ! i)\<lparr>sub_text := newText\<rparr>]\<rparr>)"
    by (simp add: pushToHistory_def Let_def)
  ultimately show ?thesis
    using handleSubtitleUpdate_valid [OF assms(4,3), of newText] by auto
qed

definition two_cuts_heap :: heap where
  "two_cuts_heap =
     [SubtitleObj \<lparr>sub_start = 2, sub_end = 5, sub_text = ''hello world''\<rparr>,
      SubtitleObj \<lparr>sub_start = 5, sub_end = 8, sub_text = ''second line''\<rparr>,
      CutObj \<lparr>cut_start = 0, cut_end = 2, reason = ''silence''\<rparr>,
      CutObj \<lparr>cut_start = 8, cut_end = 9, reason = ''cough''\<rparr>,
      ChapterObj \<lparr>timestamp = 0, title = ''Intro''\<rparr>,
      HighlightObj \<lparr>hl_start = 3, hl_end = 4, label = ''Best bit''\<rparr>,
      ArrayObj [2, 3], ArrayObj [4], ArrayObj [], ArrayObj [0, 1], ArrayObj [5],
      EdlObj 6 7 8 9 10]"

definition two_cuts_heap_app :: "ref app" where
  "two_cuts_heap_app = handleAnalyze_done 11 (initial_app None)"

lemma read_two_cuts_heap: "read_edl two_cuts_heap 11 = Some two_cuts_edl"
  by (simp add: read_edl_def read_array_def read_elem_def lookup_def two_cuts_heap_def
      two_cuts_edl_def)

theorem subtitle_update_heap_frame_witness:
  "analysis two_cuts_heap_app = Some 11 \<and> read_edl two_cuts_heap 11 = Some two_cuts_edl \<and>
   (1::nat) < length (subtitles two_cuts_edl) \<and>
   (\<exists>h' st' a' e'.
      handleSubtitleUpdate_heap 1 ''changed'' (two_cuts_heap, two_cuts_heap_app) = Inr (h', st') \<and>
      analysis st' = Some a' \<and> read_edl h' a' = Some e' \<and>
      sub_text (subtitles e' ! 1) = ''changed'' \<and>
      sub_start (subtitles e' ! 1) = 5 \<and> sub_end (subtitles e' ! 1) = 8 \<and>
      subtitles e' ! 0 = \<lparr>sub_start = 2, sub_end = 5, sub_text = ''hello world''\<rparr> \<and>
      cuts e' = cuts two_cuts_edl \<and>
      take (length two_cuts_heap) h' = two_cuts_heap \<and>
      read_edl h' 11 = Some two_cuts_edl)"
proof -
  have a: "analysis two_cuts_heap_app = Some 11"
    by (simp add: two_cuts_heap_app_def handleAnalyze_done_def)
  have l: "(1::nat) < length (subtitles two_cuts_edl)"
    by (simp add: two_cuts_edl_def)
  from subtitle_update_heap_frame [OF a read_two_cuts_heap l, of "''changed''"]
  obtain h' st' a' e' where
    h: "handleSubtitleUpdate_heap 1 ''changed'' (two_cuts_heap, two_cuts_heap_app) = Inr (h', st')"
      "analysis st' = Some a'" "read_edl h' a' = Some e'"
      "sub_text (subtitles e' ! 1) = ''changed''"
      "sub_start (subtitles e' ! 1) = sub_start (subtitles two_cuts_edl ! 1)"
      "sub_end (subtitles e' ! 1) = sub_end (subtitles two_cuts_edl ! 1)"
      "\<forall>j < length (subtitles two_cuts_edl). j \<noteq> 1 \<longrightarrow>
          subtitles e' ! j = subtitles two_cuts_edl ! j"
      "cuts e' = cuts two_cuts_edl"
      "take (length two_cuts_heap) h' = two_cuts_heap"
      "read_edl h' 11 = Some two_cuts_edl"
    by blast
  have "sub_start (subtitles e' ! 1) = 5" and "sub_end (subtitles e' ! 1) = 8"
    using h(5,6) by (simp_all add: two_cuts_edl_def)
  moreover have "subtitles e' ! 0 = \<lparr>sub_start = 2, sub_end = 5, sub_text = ''hello world''\<rparr>"
    using h(7) by (simp add: two_cuts_edl_def)
  ultimately show ?thesis
    using a read_two_cuts_heap l h(1,2,3,4,8,9,10) by blast
qed

section \<open>Loading the persisted state (App, effect on mount)\<close>

text \<open>
  The object that \<open>JSON.parse\<close> returns for the stored text is of type \<open>any\<close>: any of
  the five collections may be missing. A field is \<open>None\<close> when the property is absent
  (or \<open>null\<close>), which is what \<^verbatim>\<open>!parsed.highlights\<close> tests. The effect also restores
  the video file from the blob store, which does not touch this state.
\<close>

record SavedAnalysis =
  saved_cuts :: "CutSegment list option"
  saved_chapters :: "Chapter list option"
  saved_zooms :: "SmartZoom list option"
  saved_subtitles :: "Subtitle list option"
  saved_highlights :: "Highlight list option"

definition load_effect :: "SavedAnalysis app \<Rightarrow> SavedAnalysis app" where
  "load_effect st =
     (case saved st of
        None \<Rightarrow> st
      | Some savedAnalysis \<Rightarrow>
          let parsed = (if saved_highlights savedAnalysis = None
                        then savedAnalysis\<lparr>saved_highlights := Some []\<rparr>
                        else savedAnalysis)
          in st\<lparr>analysis := Some parsed, history := [parsed], historyIndex := 0\<rparr>)"

lemma hist_ok_load: "saved st = Some s \<Longrightarrow> hist_ok (load_effect st)"
  by (simp add: load_effect_def hist_ok_def Let_def)

definition old_save :: SavedAnalysis where
  "old_save = \<lparr>saved_cuts = None, saved_chapters = Some [], saved_zooms = Some [],
               saved_subtitles = Some [\<lparr>sub_start = 2, sub_end = 5, sub_text = ''hello''\<rparr>],
               saved_highlights = None\<rparr>"

text \<open>
  Claim C9, as the code has it. When a saved object exists, the load effect makes it
  the current EDL and the only history entry after filling in \<open>highlights\<close> alone: a
  missing \<open>highlights\<close> becomes the empty sequence, and cuts, chapters, zooms and
  subtitles are accepted exactly as stored, missing or not.
\<close>

theorem load_defaults_highlights_only:
  assumes "saved st = Some s"
  shows "\<exists>e. analysis (load_effect st) = Some e \<and>
           history (load_effect st) = [e] \<and> historyIndex (load_effect st) = 0 \<and>
           saved_highlights e = Some (case saved_highlights s of None \<Rightarrow> [] | Some hs \<Rightarrow> hs) \<and>
           saved_cuts e = saved_cuts s \<and> saved_chapters e = saved_chapters s \<and>
           saved_zooms e = saved_zooms s \<and> saved_subtitles e = saved_subtitles s"
  using assms by (auto simp: load_effect_def Let_def)

theorem load_defaults_highlights_only_witness:
  "saved (initial_app (Some old_save)) = Some old_save \<and>
   (\<exists>e. analysis (load_effect (initial_app (Some old_save))) = Some e \<and>
        saved_highlights e = Some [] \<and> saved_cuts e = None \<and>
        saved_subtitles e = Some [\<lparr>sub_start = 2, sub_end = 5, sub_text = ''hello''\<rparr>])"
proof -
  have s: "saved (initial_app (Some old_save)) = Some old_save"
    by (simp add: initial_app_def)
  from load_defaults_highlights_only [OF s] s show ?thesis
    by (auto simp: old_save_def)
qed

text \<open>
  The claim as written fails: a saved object without \<open>cuts\<close> is loaded without
  \<open>cuts\<close>.
\<close>

theorem load_keeps_missing_cuts_counterexample:
  "saved_cuts old_save = None \<and>
   analysis (load_effect (initial_app (Some old_save)))
     = Some \<lparr>saved_cuts = None, saved_chapters = Some [], saved_zooms = Some [],
              saved_subtitles = Some [\<lparr>sub_start = 2, sub_end = 5, sub_text = ''hello''\<rparr>],
              saved_highlights = Some []\<rparr>"
  by (simp add: load_effect_def initial_app_def old_save_def Let_def)

section \<open>Waveform decimator (components/Waveform.tsx)\<close>

text \<open>
  \<^verbatim>\<open>Math.ceil(data.length / width)\<close>. The lengths are far below \<open>2^53\<close>, where the
  quotient of two integers rounds to the same ceiling as the exact quotient. For
  \<open>width = 0\<close> the source computes \<open>Infinity\<close> or NaN and the column loop does not
  run, so the value is never used.
\<close>

definition step_of :: "nat \<Rightarrow> nat \<Rightarrow> nat" where
  "step_of n width = nat \<lceil>real n / real width\<rceil>"

text \<open>
  One pass of the inner loop body for the sample at position \<open>k\<close>:
  \<^verbatim>\<open>data[k]\<close> is \<open>undefined\<close> past the end of the buffer, both comparisons are then
  false, and the running pair is unchanged.
\<close>

definition scan_sample :: "real list \<Rightarrow> nat \<Rightarrow> real \<times> real \<Rightarrow> real \<times> real" where
  "scan_sample data k acc =
     (case acc of (mn, mx) \<Rightarrow>
        if k < length data
        then let datum = data ! k
             in (if datum < mn then datum else mn, if datum > mx then datum else mx)
        else (mn, mx))"

definition column_peak :: "real list \<Rightarrow> nat \<Rightarrow> nat \<Rightarrow> real \<times> real" where
  "column_peak data step i = fold (\<lambda>j. scan_sample data (i * step + j)) [0..<step] (1, - 1)"

definition peaks :: "real list \<Rightarrow> nat \<Rightarrow> (real \<times> real) list" where
  "peaks data width = map (column_peak data (step_of (length data) width)) [0..<width]"

text \<open>
  The base waveform that \<open>draw\<close> paints: one \<^verbatim>\<open>fillRect(i, yMin, 1, h)\<close> per column.
  The cut overlays painted afterwards do not enter the peaks.
\<close>

record rect =
  rect_x :: real
  rect_y :: real
  rect_w :: real
  rect_h :: real

definition column_rect :: "real \<Rightarrow> nat \<Rightarrow> real \<times> real \<Rightarrow> rect" where
  "column_rect height i pk =
     (case pk of (mn, mx) \<Rightarrow>
        let amp = height / 2;
            yMin = (1 + mn) * amp;
            yMax = (1 + mx) * amp;
            h = max 1 (yMax - yMin)
        in \<lparr>rect_x = real i, rect_y = yMin, rect_w = 1, rect_h = h\<rparr>)"

definition draw_waveform :: "real list \<Rightarrow> nat \<Rightarrow> real \<Rightarrow> rect list" where
  "draw_waveform data width height =
     map (\<lambda>i. column_rect height i (column_peak data (step_of (length data) width) i)) [0..<width]"



text \<open>The samples \<open>[i * step, i * step + step)\<close> of the buffer, as the specification names them.\<close>

definition window :: "real list \<Rightarrow> nat \<Rightarrow> nat \<Rightarrow> real list" where
  "window data step i = take step (drop (i * step) data)"

text \<open>The two updates of the inner loop body for a sample that exists.\<close>

definition track :: "real \<Rightarrow> real \<times> real \<Rightarrow> real \<times> real" where
  "track datum acc = (case acc of (mn, mx) \<Rightarrow>
      (if datum < mn then datum else mn, if datum > mx then datum else mx))"

lemma scan_fold_window:
  "fold (\<lambda>j. scan_sample data (off + j)) [0..<n] acc = fold track (take n (drop off data)) acc"
proof (induction n)
  case 0
  then show ?case by simp
next
  case (Suc n)
  show ?case
  proof (cases "off + n < length data")
    case True
    then have "take (Suc n) (drop off data) = take n (drop off data) @ [data ! (off + n)]"
      by (simp add: take_Suc_conv_app_nth)
    with True Suc show ?thesis
      by (simp add: scan_sample_def track_def Let_def split: prod.splits)
  next
    case False
    then have "take (Suc n) (drop off data) = take n (drop off data)"
      by simp
    with False Suc show ?thesis
      by (simp add: scan_sample_def split: prod.splits)
  qed
qed

lemma track_min_max: "track w (a, b) = (min w a, max w b)"
  by (simp add: track_def min_def max_def)

lemma Min_insert_min: "finite S \<Longrightarrow> Min (insert (min w a) S) = Min (insert a (insert w S))"
  for a w :: real
  by (cases "S = {}") (simp_all add: min.commute min.assoc min.left_commute)

lemma Max_insert_max: "finite S \<Longrightarrow> Max (insert (max w b) S) = Max (insert b (insert w S))"
  for b w :: real
  by (cases "S = {}") (simp_all add: max.commute max.assoc max.left_commute)

lemma fold_track:
  "fold track ws (a, b) = (Min (insert a (set ws)), Max (insert b (set ws)))"
proof (induction ws arbitrary: a b)
  case Nil
  then show ?case by simp
next
  case (Cons w ws)
  show ?case
    by (simp add: track_min_max Cons.IH Min_insert_min Max_insert_max)
qed

lemma column_peak_window:
  "column_peak data step i =
     (Min (insert 1 (set (window data step i))), Max (insert (- 1) (set (window data step i))))"
  by (simp add: column_peak_def scan_fold_window fold_track window_def)

lemma step_of_covers:
  assumes "0 < w"
  shows "n \<le> w * step_of n w"
proof -
  have "real n / real w \<le> real_of_int \<lceil>real n / real w\<rceil>" by (rule le_of_int_ceiling)
  moreover have "0 \<le> \<lceil>real n / real w\<rceil>"
  proof -
    have "(0::real) \<le> real n / real w" by simp
    then have "\<lceil>0::real\<rceil> \<le> \<lceil>real n / real w\<rceil>" by (rule ceiling_mono)
    then show ?thesis by simp
  qed
  ultimately have "real n / real w \<le> real (step_of n w)"
    by (simp add: step_of_def)
  then have "real n \<le> real (step_of n w) * real w"
    using assms by (simp add: pos_divide_le_eq)
  then have "real n \<le> real (w * step_of n w)"
    by (simp add: mult.commute)
  then show ?thesis by (simp only: of_nat_le_iff)
qed

lemma step_of_least:
  assumes "0 < w" and "0 < n"
  shows "w * (step_of n w - 1) < n"
proof -
  have pos: "0 < real n / real w" using assms by simp
  then have c: "0 < \<lceil>real n / real w\<rceil>" by (simp add: zero_less_ceiling)
  then have s: "real (step_of n w) = real_of_int \<lceil>real n / real w\<rceil>"
    by (simp add: step_of_def)
  have "real_of_int \<lceil>real n / real w\<rceil> < real n / real w + 1"
    using ceiling_correct [of "real n / real w"] by linarith
  then have "real (step_of n w) - 1 < real n / real w"
    using s by simp
  moreover have "1 \<le> step_of n w" using pos by (simp add: step_of_def Suc_le_eq)
  ultimately have "real (step_of n w - 1) < real n / real w"
    by (simp add: of_nat_diff)
  then have "real (step_of n w - 1) * real w < real n"
    using assms by (simp add: pos_less_divide_eq)
  then have "real (w * (step_of n w - 1)) < real n"
    by (simp add: mult.commute)
  then show ?thesis by (simp only: of_nat_less_iff)
qed

lemma window_in_range:
  assumes "\<forall>d \<in> set data. - 1 \<le> d \<and> d \<le> 1" and "window data step i \<noteq> []"
  shows "Min (insert 1 (set (window data step i))) = Min (set (window data step i))"
    and "Max (insert (- 1) (set (window data step i))) = Max (set (window data step i))"
proof -
  let ?S = "set (window data step i)"
  have sub: "?S \<subseteq> set data"
    unfolding window_def by (meson in_set_dropD in_set_takeD subsetI)
  have fin: "finite ?S" and ne: "?S \<noteq> {}" using assms(2) by simp_all
  have "Min ?S \<le> 1"
    using Min_in [OF fin ne] sub assms(1) by auto
  then show "Min (insert 1 ?S) = Min ?S"
    using fin ne by (simp add: min_absorb2)
  have "- 1 \<le> Max ?S"
    using Max_in [OF fin ne] sub assms(1) by auto
  then show "Max (insert (- 1) ?S) = Max ?S"
    using fin ne by (simp add: max_absorb2)
qed

lemma rect_h_column_rect: "1 \<le> rect_h (column_rect height i pk)"
  by (cases pk) (simp add: column_rect_def Let_def)

text \<open>
  Claim C8. For a buffer \<open>data\<close> and a width \<open>W\<close>, with \<open>step = ceil (N / W)\<close>: there
  is one peak per column and the columns cover the buffer; the peak of column \<open>i\<close> is
  the minimum and the maximum of the samples \<open>[i * step, i * step + step)\<close> together
  with the start values 1 and -1, hence the minimum and maximum of those samples when
  the samples lie in \<open>[-1, 1]\<close> and the column holds one; the painted columns are a
  function of the peaks, the column number and the canvas height alone; and every
  painted column is at least 1 unit high.
\<close>

theorem waveform_decimation:
  "length (peaks data W) = W \<and>
   (0 < W \<longrightarrow> length data \<le> W * step_of (length data) W) \<and>
   (\<forall>i < W. peaks data W ! i =
      (Min (insert 1 (set (window data (step_of (length data) W) i))),
       Max (insert (- 1) (set (window data (step_of (length data) W) i))))) \<and>
   (\<forall>i < W. (\<forall>d \<in> set data. - 1 \<le> d \<and> d \<le> 1) \<and>
        window data (step_of (length data) W) i \<noteq> [] \<longrightarrow>
      peaks data W ! i =
        (Min (set (window data (step_of (length data) W) i)),
         Max (set (window data (step_of (length data) W) i)))) \<and>
   draw_waveform data W height = map (\<lambda>i. column_rect height i (peaks data W ! i)) [0..<W] \<and>
   (\<forall>r \<in> set (draw_waveform data W height). 1 \<le> rect_h r)"
proof (intro conjI allI impI ballI)
  show "length (peaks data W) = W" by (simp add: peaks_def)
next
  assume "0 < W"
  then show "length data \<le> W * step_of (length data) W" by (rule step_of_covers)
next
  fix i assume "i < W"
  then show "peaks data W ! i =
      (Min (insert 1 (set (window data (step_of (length data) W) i))),
       Max (insert (- 1) (set (window data (step_of (length data) W) i))))"
    by (simp add: peaks_def column_peak_window)
next
  fix i assume i: "i < W"
    and h: "(\<forall>d \<in> set data. - 1 \<le> d \<and> d \<le> 1) \<and> window data (step_of (length data) W) i \<noteq> []"
  from h have r: "\<forall>d \<in> set data. - 1 \<le> d \<and> d \<le> 1"
    and ne: "window data (step_of (length data) W) i \<noteq> []" by simp_all
  show "peaks data W ! i =
        (Min (set (window data (step_of (length data) W) i)),
         Max (set (window data (step_of (length data) W) i)))"
    using i window_in_range [OF r ne] by (simp add: peaks_def column_peak_window)
next
  show "draw_waveform data W height = map (\<lambda>i. column_rect height i (peaks data W ! i)) [0..<W]"
    by (simp add: draw_waveform_def peaks_def)
next
  fix r assume "r \<in> set (draw_waveform data W height)"
  then show "1 \<le> rect_h r"
    by (auto simp: draw_waveform_def rect_h_column_rect)
qed

definition five_samples :: "real list" where
  "five_samples = [0, 1 / 2, - (1 / 2), 1 / 4, - (1 / 4)]"

theorem waveform_decimation_witness:
  "list_all (\<lambda>d. - 1 \<le> d \<and> d \<le> 1) five_samples \<and>
   step_of (length five_samples) 2 = 3 \<and>
   window five_samples 3 1 = [1 / 4, - (1 / 4)] \<and>
   peaks five_samples 2 ! 1 = (- (1 / 4), 1 / 4) \<and>
   length five_samples \<le> 2 * step_of (length five_samples) 2 \<and>
   rect_h (draw_waveform [0, 0, 0, 0] 2 64 ! 0) = 1"
proof -
  note T = waveform_decimation [of five_samples 2 64]
  note U = waveform_decimation [of "[0, 0, 0, 0]" 2 64]
  have s: "step_of (length five_samples) 2 = 3"
    by (simp add: step_of_def five_samples_def)
  have w: "window five_samples 3 1 = [1 / 4, - (1 / 4)]"
    by (simp add: window_def five_samples_def)
  have r: "\<forall>d \<in> set five_samples. - 1 \<le> d \<and> d \<le> 1"
    by (simp add: five_samples_def)
  from T have "\<forall>i < 2. (\<forall>d \<in> set five_samples. - 1 \<le> d \<and> d \<le> 1) \<and>
        window five_samples (step_of (length five_samples) 2) i \<noteq> [] \<longrightarrow>
      peaks five_samples 2 ! i =
        (Min (set (window five_samples (step_of (length five_samples) 2) i)),
         Max (set (window five_samples (step_of (length five_samples) 2) i)))"
    by blast
  then have "(\<forall>d \<in> set five_samples. - 1 \<le> d \<and> d \<le> 1) \<and> window five_samples 3 1 \<noteq> [] \<longrightarrow>
      peaks five_samples 2 ! 1 =
        (Min (set (window five_samples 3 1)), Max (set (window five_samples 3 1)))"
    unfolding s by (rule allE [of _ 1]) simp
  with r have p: "peaks five_samples 2 ! 1 = (- (1 / 4), 1 / 4)"
    unfolding w by simp
  from T have c: "length five_samples \<le> 2 * step_of (length five_samples) 2"
    by simp
  have d: "draw_waveform [0, 0, 0, 0] 2 64 ! 0 \<in> set (draw_waveform [0, 0, 0, 0] 2 64)"
    by (simp add: draw_waveform_def)
  from U have "\<forall>r \<in> set (draw_waveform [0, 0, 0, 0] 2 64). 1 \<le> rect_h r"
    by blast
  with d have ge: "1 \<le> rect_h (draw_waveform [0, 0, 0, 0] 2 64 ! 0)"
    by blast
  have "rect_h (draw_waveform [0, 0, 0, 0] 2 64 ! 0) \<le> 1"
    by (simp add: draw_waveform_def column_rect_def column_peak_def step_of_def scan_sample_def
        upt_rec Let_def)
  with ge have h: "rect_h (draw_waveform [0, 0, 0, 0] 2 64 ! 0) = 1"
    by simp
  from r have "list_all (\<lambda>d. - 1 \<le> d \<and> d \<le> 1) five_samples"
    by (simp add: list_all_iff)
  with s w p c h show ?thesis by blast
qed

end
